theory Spec2Isabelle
  imports Main
begin

section \<open>The CSR container (csr\_graph.hpp)\<close>

subsection \<open>Data model\<close>

text \<open>
  The failures of the container. The source reports them through \<open>assert\<close>; the
  model turns every assertion into a failing branch:
  \<^item> \<open>NotEmpty\<close>: the first assertion of \<open>load_edges\<close>;
  \<^item> \<open>OutOfOrder\<close>: \<open>assert(edge.source_id >= last_uid)\<close>;
  \<^item> \<open>IdOutOfRange\<close>: \<open>assert(static_cast<size_t>(id) < size())\<close> in
    \<open>load_row_values\<close>;
  \<^item> \<open>OutOfBounds\<close>: the bounds assertions of \<open>edges(g, uid)\<close>, and a read of
    \<open>row_index_\<close> past its end;
  \<^item> \<open>SeedOutOfRange\<close>: a traversal seed that is not a vertex.
\<close>

datatype error = NotEmpty | OutOfOrder | IdOutOfRange | OutOfBounds | SeedOutOfRange

text \<open>
  \<open>copyable_edge_t<VId, EV>\<close>: the record an edge projection returns. The vertex
  ids are \<open>VId\<close> values, read as naturals. (The field \<open>value\<close> is called \<open>val\<close>
  here; for \<open>EV = void\<close> the field is absent in the source and is of type \<open>unit\<close>
  in the model.)
\<close>

record 'ev copyable_edge =
  source_id :: nat
  target_id :: nat
  val :: 'ev

text \<open>
  \<open>VId\<close> and \<open>EIndex\<close> are the template's defaults, \<open>uint32_t\<close>: a
  \<open>static_cast<vertex_id_type>\<close> and an addition in \<open>vertex_id_type\<close> wrap at
  \<open>2 ^ 32\<close>. \<open>size_t\<close> (\<open>size_type\<close>) has 64 bits: an addition in
  \<open>size_type\<close> wraps at \<open>2 ^ 64\<close>. The lengths of vectors are naturals.
\<close>

definition to_VId :: "nat \<Rightarrow> nat" where
  "to_VId n = n mod 2 ^ 32"

definition to_size_t :: "nat \<Rightarrow> nat" where
  "to_size_t n = n mod 2 ^ 64"

text \<open>
  \<open>csr_col_values\<close>: the vector \<open>v_\<close> of edge values, and its specialisation for
  \<open>EV = void\<close>, an empty class whose \<open>size()\<close> is 0, whose \<open>empty()\<close> is true and
  which stores nothing (\<open>load_edges\<close> pushes a value under
  \<open>if constexpr (!is_void_v<EV>)\<close> only).
\<close>

datatype 'ev csr_col_values = Col_void | Col_vals "'ev list"

fun col_size :: "'ev csr_col_values \<Rightarrow> nat" where
  "col_size Col_void = 0"
| "col_size (Col_vals v) = length v"

fun col_empty :: "'ev csr_col_values \<Rightarrow> bool" where
  "col_empty Col_void = True"
| "col_empty (Col_vals v) = (v = [])"

fun col_push_back :: "'ev csr_col_values \<Rightarrow> 'ev \<Rightarrow> 'ev csr_col_values" where
  "col_push_back Col_void x = Col_void"
| "col_push_back (Col_vals v) x = Col_vals (v @ [x])"

text \<open>
  \<open>csr_graph_base\<close>: \<open>row_index_\<close> (the \<open>index\<close> of each \<open>csr_row\<close>),
  \<open>col_index_\<close> (the \<open>index\<close> of each \<open>csr_col\<close>, a target id), the edge values
  of the base class \<open>csr_col_values\<close> and the vertex values \<open>v_\<close> of the base class
  \<open>csr_row_values\<close>. For \<open>VV = void\<close> the latter has size 0 and ignores
  \<open>resize\<close>: it is the empty list throughout.
\<close>

record ('ev, 'vv) csr_graph =
  row_index :: "nat list"
  col_index :: "nat list"
  col_values :: "'ev csr_col_values"
  row_values :: "'vv list"

text \<open>\<open>std::vector::resize(n, v)\<close>: truncates to \<open>n\<close> elements or appends copies of \<open>v\<close>.\<close>

definition resize :: "'a list \<Rightarrow> nat \<Rightarrow> 'a \<Rightarrow> 'a list" where
  "resize xs n v = (if n \<le> length xs then take n xs else xs @ replicate (n - length xs) v)"

subsection \<open>load\_edges\<close>

text \<open>
  \<open>last_erng_id\<close>: for a bidirectional range the larger id of the last record, and
  \<open>vertex_id_type()\<close>, that is 0, otherwise.
\<close>

definition last_erng_id :: "bool \<Rightarrow> 'ev copyable_edge list \<Rightarrow> nat" where
  "last_erng_id bidirectional erng =
     (if bidirectional \<and> erng \<noteq> []
      then max (source_id (last erng)) (target_id (last erng)) else 0)"

text \<open>
  The loop \<open>for (auto&& edge_data : erng)\<close> of \<open>load_edges\<close>, with its locals
  \<open>last_uid\<close> and \<open>max_vid\<close>; it returns the graph and \<open>max_vid\<close>. The row
  vector is resized with the size of the edge-value vector as the fill value, as in
  the source. (\<open>static_cast<size_t>(edge.source_id) + 1\<close> adds 1 to a 32-bit value in
  \<open>size_t\<close> and does not wrap.)
\<close>

fun add_edges ::
  "('ev, 'vv) csr_graph \<Rightarrow> nat \<Rightarrow> nat \<Rightarrow> 'ev copyable_edge list
     \<Rightarrow> error + (('ev, 'vv) csr_graph \<times> nat)" where
  "add_edges g last_uid max_vid [] = Inr (g, max_vid)"
| "add_edges g last_uid max_vid (edge # erng) =
     (if \<not> source_id edge \<ge> last_uid then Inl OutOfOrder
      else add_edges
             (g\<lparr>row_index := resize (row_index g) (source_id edge + 1)
                                (to_VId (col_size (col_values g))),
                col_index := col_index g @ [target_id edge],
                col_values := col_push_back (col_values g) (val edge)\<rparr>)
             (source_id edge) (max max_vid (target_id edge)) erng)"

text \<open>
  \<open>load_edges(const ERng& erng, EProj eprojection, size_type vertex_count,
  size_type edge_count)\<close>. The projection is applied by the caller (\<open>erng\<close> is the
  list of projected records); \<open>edge_count\<close> only reserves capacity and is left out;
  \<open>vv0\<close> is the value-initialised \<open>VV\<close> that \<open>resize\<close> appends;
  \<open>bidirectional\<close> says whether \<open>ERng\<close> is a bidirectional range. This is the
  overload the constructors call; the overload for \<open>ERng&&\<close> differs in moving the
  edge value and in extending the vertex values only when there is more than one.
  \<open>vertex_count\<close> is a \<open>size_type\<close>: \<open>vertex_count + 1\<close> in the last resize of
  \<open>row_index_\<close> wraps at \<open>2 ^ 64\<close>. \<open>reserve_vertices\<close> and
  \<open>reserve_edges\<close> change capacities only; a failing allocation
  (\<open>std::length_error\<close>, \<open>std::bad_alloc\<close>) is not modelled.
\<close>

definition load_edges ::
  "'vv \<Rightarrow> bool \<Rightarrow> nat \<Rightarrow> ('ev, 'vv) csr_graph \<Rightarrow> 'ev copyable_edge list
     \<Rightarrow> error + ('ev, 'vv) csr_graph" where
  "load_edges vv0 bidirectional vertex_count g erng =
     (if \<not> (row_index g = [] \<and> col_index g = [] \<and> col_empty (col_values g))
      then Inl NotEmpty
      else if erng = [] then Inr g
      else
        let vertex_count1 = max vertex_count (to_VId (last_erng_id bidirectional erng + 1))
        in case add_edges g 0 0 erng of
             Inl e \<Rightarrow> Inl e
           | Inr (g1, max_vid) \<Rightarrow>
               let vertex_count2 =
                     max vertex_count1 (max (length (row_index g1)) (to_VId (max_vid + 1)));
                   g2 = g1\<lparr>row_index := resize (row_index g1) (to_size_t (vertex_count2 + 1))
                                            (to_VId (col_size (col_values g1)))\<rparr>
               in Inr (if length (row_values g2) > 0 \<and> length (row_values g2) < vertex_count2
                       then g2\<lparr>row_values := resize (row_values g2) vertex_count2 vv0\<rparr>
                       else g2))"

subsection \<open>Queries\<close>

text \<open>
  \<open>vertices(g)\<close>: the rows without the terminating row, or nothing when
  \<open>row_index_\<close> is empty.
\<close>

definition vertices :: "('ev, 'vv) csr_graph \<Rightarrow> nat list" where
  "vertices g = (if row_index g = [] then [] else butlast (row_index g))"

definition num_vertices :: "('ev, 'vv) csr_graph \<Rightarrow> nat" where
  "num_vertices g = length (vertices g)"

definition num_edges :: "('ev, 'vv) csr_graph \<Rightarrow> nat" where
  "num_edges g = length (col_index g)"

text \<open>
  \<open>edges(g, uid)\<close>: the subrange of \<open>col_index_\<close> from \<open>row_index_[uid].index\<close> to
  \<open>row_index_[uid + 1].index\<close>, as the pair of the two offsets from
  \<open>col_index_.begin()\<close>. \<open>uid + 1\<close> is computed in \<open>vertex_id_type\<close>. The two
  assertions of the source come first; the read of \<open>row_index_[uid]\<close> is in range
  whenever \<open>uid + 1\<close> did not wrap, and fails otherwise.
\<close>

definition edges :: "('ev, 'vv) csr_graph \<Rightarrow> nat \<Rightarrow> error + (nat \<times> nat)" where
  "edges g uid =
     (if \<not> to_VId (uid + 1) < length (row_index g) then Inl OutOfBounds
      else if \<not> row_index g ! to_VId (uid + 1) \<le> length (col_index g) then Inl OutOfBounds
      else if \<not> uid < length (row_index g) then Inl OutOfBounds
      else Inr (row_index g ! uid, row_index g ! to_VId (uid + 1)))"

text \<open>
  An edge handle is a reference into \<open>col_index_\<close>: the model uses its position.
  \<open>target_id(g, uv)\<close> is \<open>uv.index\<close>; \<open>edge_value(g, uv)\<close> is \<open>v_[index_of(uv)]\<close>.
\<close>

definition target_id_of :: "('ev, 'vv) csr_graph \<Rightarrow> nat \<Rightarrow> nat" where
  "target_id_of g uv = col_index g ! uv"

fun edge_value :: "('ev, 'vv) csr_graph \<Rightarrow> nat \<Rightarrow> 'ev option" where
  "edge_value g uv =
     (case col_values g of Col_void \<Rightarrow> None
      | Col_vals v \<Rightarrow> if uv < length v then Some (v ! uv) else None)"

text \<open>
  Flattening \<open>edges(g, v)\<close> over a list of vertex ids: the edge handles of each
  subrange in order, from its first offset up to its second.
\<close>

fun flatten_edges :: "('ev, 'vv) csr_graph \<Rightarrow> nat list \<Rightarrow> error + nat list" where
  "flatten_edges g [] = Inr []"
| "flatten_edges g (v # vs) =
     (case edges g v of
        Inl e \<Rightarrow> Inl e
      | Inr (first_uv, last_uv) \<Rightarrow>
          (case flatten_edges g vs of
             Inl e \<Rightarrow> Inl e
           | Inr uvs \<Rightarrow> Inr ([first_uv ..< last_uv] @ uvs)))"

subsection \<open>load\_vertices\<close>

text \<open>
  The loop of \<open>load_row_values\<close>: each pair \<open>[id, value]\<close> is checked by
  \<open>assert(static_cast<size_t>(id) < size())\<close> and stored at \<open>v_[id]\<close>.
\<close>

fun assign_row_values :: "'vv list \<Rightarrow> (nat \<times> 'vv) list \<Rightarrow> error + 'vv list" where
  "assign_row_values v [] = Inr v"
| "assign_row_values v ((uid, vval) # vrng) =
     (if \<not> uid < length v then Inl IdOutOfRange
      else assign_row_values (v[uid := vval]) vrng)"

text \<open>
  \<open>load_row_values(vrng, projection, vertex_count)\<close>: \<open>vertex_count\<close> is raised to
  the size of the range and then not used; the vector is resized to
  \<open>ranges::size(vrng)\<close>.
\<close>

definition load_row_values ::
  "'vv \<Rightarrow> 'vv list \<Rightarrow> (nat \<times> 'vv) list \<Rightarrow> nat \<Rightarrow> error + 'vv list" where
  "load_row_values vv0 v vrng vertex_count =
     (let vertex_count1 = max vertex_count (length vrng)
      in assign_row_values (resize v (length vrng) vv0) vrng)"

text \<open>\<open>load_vertices(vrng, vprojection, vertex_count = 0)\<close>.\<close>

definition load_vertices ::
  "'vv \<Rightarrow> ('ev, 'vv) csr_graph \<Rightarrow> (nat \<times> 'vv) list \<Rightarrow> nat \<Rightarrow> error + ('ev, 'vv) csr_graph" where
  "load_vertices vv0 g vrng vertex_count =
     (case load_row_values vv0 (row_values g) vrng (max vertex_count (length vrng)) of
        Inl e \<Rightarrow> Inl e
      | Inr v \<Rightarrow> Inr (g\<lparr>row_values := v\<rparr>))"

subsection \<open>The structural invariants\<close>

text \<open>
  The structural invariants as the specification states them: \<open>row_offsets\<close> is
  non-decreasing, \<open>row_offsets[0] == 0\<close>, \<open>row_offsets[|V|] == |col_targets|\<close> (both
  elements exist) and every entry of \<open>col_targets\<close> is below \<open>|V|\<close>.
\<close>

definition structural_invariants :: "('ev, 'vv) csr_graph \<Rightarrow> bool" where
  "structural_invariants g =
     (sorted (row_index g) \<and>
      0 < length (row_index g) \<and> row_index g ! 0 = 0 \<and>
      num_vertices g < length (row_index g) \<and>
      row_index g ! num_vertices g = length (col_index g) \<and>
      (\<forall>t\<in>set (col_index g). t < num_vertices g))"

section \<open>The vertexlist view (vertexlist\_view.hpp)\<close>

text \<open>
  \<open>const_vertexlist_iterator\<close> and \<open>vertexlist_iterator\<close>: the shadow value
  \<open>value_\<close> (the vertex key and a pointer to the vertex, \<open>nullptr\<close> until the first
  dereference) and the vertex cursor \<open>iter_\<close>, an offset into \<open>vertices(g)\<close>.
\<close>

record vertexlist_iterator =
  value_first :: nat
  value_second :: "nat option"
  iter :: nat

text \<open>The constructor \<open>vertexlist_iterator(iter, start_at = 0)\<close>.\<close>

definition vertexlist_iterator_at :: "nat \<Rightarrow> nat \<Rightarrow> vertexlist_iterator" where
  "vertexlist_iterator_at it start_at =
     \<lparr>value_first = start_at, value_second = None, iter = it\<rparr>"

text \<open>\<open>operator++\<close>: the cursor and the key move together; the key is a \<open>VId\<close>.\<close>

definition vl_increment :: "vertexlist_iterator \<Rightarrow> vertexlist_iterator" where
  "vl_increment i = i\<lparr>iter := iter i + 1, value_first := to_VId (value_first i + 1)\<rparr>"

text \<open>\<open>operator*\<close>: stores the address of the vertex under the cursor and returns the pair.\<close>

definition vl_deref :: "vertexlist_iterator \<Rightarrow> (nat \<times> nat) \<times> vertexlist_iterator" where
  "vl_deref i = ((value_first i, iter i), i\<lparr>value_second := Some (iter i)\<rparr>)"

text \<open>\<open>operator==\<close>: \<open>iter_ == rhs.iter_\<close>.\<close>

definition vl_equal :: "vertexlist_iterator \<Rightarrow> vertexlist_iterator \<Rightarrow> bool" where
  "vl_equal lhs rhs = (iter lhs = iter rhs)"

section \<open>Concrete inputs\<close>

text \<open>The graph value a default constructor leaves: every vector empty.\<close>

definition empty_graph :: "'ev csr_col_values \<Rightarrow> ('ev, 'vv) csr_graph" where
  "empty_graph cv = \<lparr>row_index = [], col_index = [], col_values = cv, row_values = []\<rparr>"

definition mk_edge :: "nat \<Rightarrow> nat \<Rightarrow> 'ev \<Rightarrow> 'ev copyable_edge" where
  "mk_edge s t v = \<lparr>source_id = s, target_id = t, val = v\<rparr>"

text \<open>The German routes, with the distance in km as the edge value.\<close>

definition routes :: "int copyable_edge list" where
  "routes =
     [mk_edge 0 1 85, mk_edge 0 4 217, mk_edge 0 6 173, mk_edge 1 2 80, mk_edge 2 3 250,
      mk_edge 3 8 84, mk_edge 4 5 103, mk_edge 4 7 186, mk_edge 5 9 183]"

definition germany_routes :: "(int, string) csr_graph" where
  "germany_routes =
     (case load_edges [] True 0 (empty_graph (Col_vals [])) routes of
        Inl err \<Rightarrow> empty_graph (Col_vals [])
      | Inr g \<Rightarrow> g)"

section \<open>The depth-first search views\<close>

text \<open>
  Modelled from the spec: the cancellation policies of the DFS views
  (\<open>graph/views/depth_first_search.hpp\<close> is not among the sources; the tests name
  the policies \<open>cancel_search::cancel_branch\<close> and \<open>cancel_search::cancel_all\<close>).
\<close>

datatype cancel_search = cancel_branch | cancel_all

text \<open>
  Modelled from the spec: a frame of the traversal stack of the absent
  \<open>depth_first_search.hpp\<close>, \<open>(vertex_id, edge_cursor, edge_end)\<close>: the vertex being
  explored, the next candidate out-edge and the end of its out-edges. Cursors are
  positions in \<open>col_index_\<close>.
\<close>

record frame =
  vertex_id :: nat
  edge_cursor :: nat
  edge_end :: nat

text \<open>
  Modelled from the spec: the state of the traversal engine of the absent
  \<open>depth_first_search.hpp\<close>: the visited bitmap sized \<open>|V|\<close>, the stack of frames (the
  top is the head of the list) and the pending cancellation, which the next advance
  consumes.
\<close>

record dfs_state =
  visited :: "bool list"
  stack :: "frame list"
  cancel_flag :: "cancel_search option"

text \<open>
  Modelled from the spec: the initialisation of the engine of the absent
  \<open>depth_first_search.hpp\<close>: mark the seed visited and push the frame
  \<open>(seed, begin(edges(seed)), end(edges(seed)))\<close>; a seed \<open>\<ge> |V|\<close> is
  \<open>SeedOutOfRange\<close>.
\<close>

definition dfs_init :: "('ev, 'vv) csr_graph \<Rightarrow> nat \<Rightarrow> error + dfs_state" where
  "dfs_init g seed =
     (if \<not> seed < num_vertices g then Inl SeedOutOfRange
      else case edges g seed of
             Inl e \<Rightarrow> Inl e
           | Inr (first_uv, last_uv) \<Rightarrow>
               Inr \<lparr>visited = (replicate (num_vertices g) False)[seed := True],
                    stack = [\<lparr>vertex_id = seed, edge_cursor = first_uv, edge_end = last_uv\<rparr>],
                    cancel_flag = None\<rparr>)"

text \<open>
  Modelled from the spec: the advance step of the engine of the absent
  \<open>depth_first_search.hpp\<close>.
  \<^enum> Let the top frame be \<open>(u, cur, end)\<close>.
  \<^enum> If \<open>cur == end\<close>: pop; if the stack is empty, exhausted; else go to 1.
  \<^enum> Let \<open>e := *cur\<close>, \<open>v := target_id(e)\<close>.
  \<^enum> Pre-advance \<open>cur\<close> on the top frame.
  \<^enum> If \<open>v\<close> is already visited: go to 1.
  \<^enum> Mark \<open>v\<close> visited; push \<open>(v, begin(edges(v)), end(edges(v)))\<close>.
  \<^enum> Yield the discovery event for \<open>v\<close> and \<open>e\<close>.

  The result is the discovery event \<open>(u, v, e)\<close> (the source, which the sourced mode
  of the edge view yields, the discovered vertex and the edge), or \<open>None\<close> at
  exhaustion, with the new state. Reading \<open>*cur\<close> outside \<open>col_index_\<close> and reading the bitmap outside its
  size fail with \<open>OutOfBounds\<close>.
\<close>

function advance ::
  "('ev, 'vv) csr_graph \<Rightarrow> dfs_state
     \<Rightarrow> error + ((nat \<times> nat \<times> nat) option \<times> dfs_state)" where
  "advance g s =
     (case stack s of
        [] \<Rightarrow> Inr (None, s)
      | fr # rest \<Rightarrow>
          if edge_cursor fr = edge_end fr then advance g (s\<lparr>stack := rest\<rparr>)
          else if \<not> edge_cursor fr < length (col_index g) then Inl OutOfBounds
          else
            let e = edge_cursor fr;
                v = target_id_of g e;
                s1 = s\<lparr>stack := fr\<lparr>edge_cursor := e + 1\<rparr> # rest\<rparr>
            in if \<not> v < length (visited s1) then Inl OutOfBounds
               else if visited s1 ! v then advance g s1
               else case edges g v of
                      Inl err \<Rightarrow> Inl err
                    | Inr (first_uv, last_uv) \<Rightarrow>
                        Inr (Some (vertex_id fr, v, e),
                             s1\<lparr>visited := (visited s1)[v := True],
                                stack := \<lparr>vertex_id = v, edge_cursor = first_uv,
                                           edge_end = last_uv\<rparr> # stack s1\<rparr>))"
  by pat_completeness auto
termination
  apply (relation "measure (\<lambda>(g, s).
           (\<Sum>f \<leftarrow> stack s. 1 + (length (col_index g) - edge_cursor f)))")
    apply simp
   apply simp
  apply (simp add: Let_def)
  done

declare advance.simps [simp del]

text \<open>
  Modelled from the spec: \<open>cancel(policy)\<close> of the views of the absent
  \<open>depth_first_search.hpp\<close>: it only records the policy in the traversal state.
\<close>

definition dfs_cancel :: "dfs_state \<Rightarrow> cancel_search \<Rightarrow> dfs_state" where
  "dfs_cancel s policy = s\<lparr>cancel_flag := Some policy\<rparr>"

text \<open>
  Modelled from the spec: the next advance of the absent
  \<open>depth_first_search.hpp\<close> under a pending cancellation: \<open>cancel_all\<close> empties the
  stack and reports exhaustion; \<open>cancel_branch\<close> pops exactly one frame and resumes
  the advance; the flag is consumed.
\<close>

definition dfs_next ::
  "('ev, 'vv) csr_graph \<Rightarrow> dfs_state
     \<Rightarrow> error + ((nat \<times> nat \<times> nat) option \<times> dfs_state)" where
  "dfs_next g s =
     (case cancel_flag s of
        None \<Rightarrow> advance g s
      | Some cancel_all \<Rightarrow> Inr (None, s\<lparr>stack := [], cancel_flag := None\<rparr>)
      | Some cancel_branch \<Rightarrow>
          advance g (s\<lparr>stack := (case stack s of [] \<Rightarrow> [] | fr # rest \<Rightarrow> rest),
                       cancel_flag := None\<rparr>))"

text \<open>The number of vertices a traversal has not yet visited.\<close>

definition unvisited :: "dfs_state \<Rightarrow> nat" where
  "unvisited s = count_list (visited s) False"

lemma count_list_mark:
  "v < length vis \<Longrightarrow> \<not> vis ! v \<Longrightarrow> count_list (vis[v := True]) False < count_list vis False"
proof (induction vis arbitrary: v)
  case Nil
  then show ?case by simp
next
  case (Cons b vis)
  then show ?case by (cases v) auto
qed

text \<open>
  What a yield does: the source has a frame on the stack; the frame of the discovered
  vertex is on top of the new stack, above frames of vertices that had one before; the
  vertex was not visited before and is now; the pending cancellation is untouched.
\<close>

lemma advance_yield:
  "advance g s = Inr (Some (u, v, e), s') \<Longrightarrow>
     u \<in> vertex_id ` set (stack s) \<and>
     (\<exists>fr rest. stack s' = fr # rest \<and> vertex_id fr = v \<and>
        edges g v = Inr (edge_cursor fr, edge_end fr) \<and>
        vertex_id ` set rest \<subseteq> vertex_id ` set (stack s)) \<and>
     target_id_of g e = v \<and> v < length (visited s) \<and> \<not> visited s ! v \<and>
     visited s' = (visited s)[v := True] \<and> cancel_flag s' = cancel_flag s"
proof (induction g s rule: advance.induct)
  case (1 g s)
  show ?case
  proof (cases "stack s")
    case Nil
    with "1.prems" show ?thesis by (simp add: advance.simps [of g s])
  next
    case (Cons fr rest)
    show ?thesis
    proof (cases "edge_cursor fr = edge_end fr")
      case True
      with Cons "1.prems" have "advance g (s\<lparr>stack := rest\<rparr>) = Inr (Some (u, v, e), s')"
        by (simp add: advance.simps [of g s])
      from "1.IH"(1) [OF Cons True this] Cons show ?thesis
        by simp blast
    next
      case False
      let ?e = "edge_cursor fr"
      let ?v = "target_id_of g ?e"
      let ?s1 = "s\<lparr>stack := fr\<lparr>edge_cursor := ?e + 1\<rparr> # rest\<rparr>"
      from "1.prems" Cons False have inb: "\<not> \<not> ?e < length (col_index g)"
        by (auto simp: advance.simps [of g s] Let_def split: if_splits)
      from "1.prems" Cons False inb have vb: "\<not> \<not> ?v < length (visited ?s1)"
        by (auto simp: advance.simps [of g s] Let_def split: if_splits)
      show ?thesis
      proof (cases "visited s ! ?v")
        case True
        with "1.prems" Cons False inb vb have "advance g ?s1 = Inr (Some (u, v, e), s')"
          by (simp add: advance.simps [of g s] Let_def)
        from "1.IH"(2) [OF Cons False inb refl refl refl vb _ this] True Cons
        show ?thesis by simp
      next
        case unseen: False
        with "1.prems" Cons False inb vb show ?thesis
          by (auto simp: advance.simps [of g s] Let_def split: sum.splits)
      qed
    qed
  qed
qed

lemma advance_yield_unvisited:
  "advance g s = Inr (Some y, s') \<Longrightarrow> unvisited s' < unvisited s"
proof -
  assume a: "advance g s = Inr (Some y, s')"
  obtain u v e where "y = (u, v, e)" by (cases y)
  with a have "advance g s = Inr (Some (u, v, e), s')" by simp
  from advance_yield [OF this] show ?thesis
    by (simp add: unvisited_def count_list_mark)
qed

lemma dfs_next_yield_unvisited:
  "dfs_next g s = Inr (Some y, s') \<Longrightarrow> unvisited s' < unvisited s"
  by (auto simp: dfs_next_def unvisited_def split: option.splits cancel_search.splits
      dest!: advance_yield_unvisited)

text \<open>
  Modelled from the spec: a client loop over a view of the absent
  \<open>depth_first_search.hpp\<close>, \<open>for (auto&& [uid, u] : dfs) body\<close>, where the body may
  call \<open>dfs.cancel(policy)\<close> after an element is yielded (\<open>body y\<close> is the policy
  it passes, if any). The result is the sequence of yielded discovery events
  \<open>(u, v, e)\<close>. The loop is total: each yield visits a new vertex.
\<close>

function traverse ::
  "('ev, 'vv) csr_graph \<Rightarrow> (nat \<times> nat \<times> nat \<Rightarrow> cancel_search option) \<Rightarrow> dfs_state
     \<Rightarrow> error + (nat \<times> nat \<times> nat) list" where
  "traverse g body s =
     (case dfs_next g s of
        Inl err \<Rightarrow> Inl err
      | Inr (None, s') \<Rightarrow> Inr []
      | Inr (Some y, s') \<Rightarrow>
          (case traverse g body
                  (case body y of None \<Rightarrow> s' | Some policy \<Rightarrow> dfs_cancel s' policy) of
             Inl err \<Rightarrow> Inl err
           | Inr ys \<Rightarrow> Inr (y # ys)))"
  by pat_completeness auto
termination
  apply (relation "measure (\<lambda>(g, body, s). unvisited s)")
   apply simp
  apply (auto simp: dfs_cancel_def unvisited_def split: option.splits
      dest!: dfs_next_yield_unvisited)
  done

declare traverse.simps [simp del]

text \<open>
  Modelled from the spec: the views of the absent \<open>depth_first_search.hpp\<close> over the
  engine. The edge view in sourced mode yields \<open>(source_VId, target_VId, edge)\<close>; the
  edge view yields the target id and the edge; the vertex view \<open>dfs_vertex_range(g,
  seed)\<close> yields the discovered vertex. The loop body sees what its view yields.
\<close>

definition dfs_sourced_edge_range ::
  "('ev, 'vv) csr_graph \<Rightarrow> nat \<Rightarrow> (nat \<times> nat \<times> nat \<Rightarrow> cancel_search option)
     \<Rightarrow> error + (nat \<times> nat \<times> nat) list" where
  "dfs_sourced_edge_range g seed body =
     (case dfs_init g seed of Inl err \<Rightarrow> Inl err | Inr s \<Rightarrow> traverse g body s)"

definition dfs_edge_range ::
  "('ev, 'vv) csr_graph \<Rightarrow> nat \<Rightarrow> (nat \<times> nat \<Rightarrow> cancel_search option)
     \<Rightarrow> error + (nat \<times> nat) list" where
  "dfs_edge_range g seed body =
     (case dfs_sourced_edge_range g seed (\<lambda>(uid, vid, uv). body (vid, uv)) of
        Inl err \<Rightarrow> Inl err
      | Inr ys \<Rightarrow> Inr (map snd ys))"

definition dfs_vertex_range ::
  "('ev, 'vv) csr_graph \<Rightarrow> nat \<Rightarrow> (nat \<Rightarrow> cancel_search option) \<Rightarrow> error + nat list" where
  "dfs_vertex_range g seed body =
     (case dfs_sourced_edge_range g seed (\<lambda>(uid, vid, uv). body vid) of
        Inl err \<Rightarrow> Inl err
      | Inr ys \<Rightarrow> Inr (map (\<lambda>(uid, vid, uv). vid) ys))"

text \<open>
  Modelled from the spec: the DFS tree of a traversal. \<open>u\<close> is the parent of \<open>v\<close>
  when an event \<open>(u, v, e)\<close> was yielded; the ancestors of a vertex are its parent and
  the ancestors of its parent.
\<close>

definition dfs_parent :: "(nat \<times> nat \<times> nat) list \<Rightarrow> (nat \<times> nat) set" where
  "dfs_parent ys = {(u, v). \<exists>e. (u, v, e) \<in> set ys}"

definition dfs_ancestor :: "(nat \<times> nat \<times> nat) list \<Rightarrow> nat \<Rightarrow> nat \<Rightarrow> bool" where
  "dfs_ancestor ys u v = ((u, v) \<in> (dfs_parent ys)\<^sup>+)"

section \<open>Notions used in the proofs\<close>

text \<open>
  The invariant of the loop of \<open>load_edges\<close>, before each record: the size of the
  edge-value vector (the fill value of the rows) is at most the length of
  \<open>col_index_\<close>, and equal to it for a non-void edge value type; the rows are sorted,
  are at most the fill value and start at 0; no row beyond \<open>last_uid\<close> is open.
\<close>

definition load_inv :: "('ev, 'vv) csr_graph \<Rightarrow> nat \<Rightarrow> bool" where
  "load_inv g last_uid =
     (col_size (col_values g) \<le> length (col_index g) \<and>
      (col_values g \<noteq> Col_void \<longrightarrow> col_size (col_values g) = length (col_index g)) \<and>
      sorted (row_index g) \<and>
      (\<forall>r\<in>set (row_index g). r \<le> col_size (col_values g)) \<and>
      (row_index g \<noteq> [] \<longrightarrow> row_index g ! 0 = 0) \<and>
      (row_index g = [] \<longrightarrow> col_size (col_values g) = 0) \<and>
      length (row_index g) \<le> last_uid + 1)"

text \<open>
  The stack the next advance starts from: the pending cancellation applied.
\<close>

definition pending_stack :: "dfs_state \<Rightarrow> frame list" where
  "pending_stack s =
     (case cancel_flag s of
        None \<Rightarrow> stack s
      | Some cancel_all \<Rightarrow> []
      | Some cancel_branch \<Rightarrow> (case stack s of [] \<Rightarrow> [] | fr # rest \<Rightarrow> rest))"

section \<open>Evaluation lemmas\<close>

lemma replicate_numeral: "replicate (numeral k) x = x # replicate (pred_numeral k) x"
  by (simp add: numeral_eq_Suc)

lemma list_update_Cons_numeral: "(x # xs)[numeral k := y] = x # xs[pred_numeral k := y]"
  by (simp add: numeral_eq_Suc)

lemma load_routes:
  "load_edges vv0 bidirectional 0 (empty_graph (Col_vals [])) routes =
     Inr \<lparr>row_index = [0, 3, 4, 5, 6, 8, 9, 9, 9, 9, 9],
          col_index = [1, 4, 6, 2, 3, 8, 5, 7, 9],
          col_values = Col_vals [85, 217, 173, 80, 250, 84, 103, 186, 183],
          row_values = []\<rparr>"
  by (simp add: load_edges_def empty_graph_def routes_def mk_edge_def resize_def to_VId_def
      to_size_t_def last_erng_id_def replicate_numeral)

lemma germany_routes_eq:
  "germany_routes =
     \<lparr>row_index = [0, 3, 4, 5, 6, 8, 9, 9, 9, 9, 9],
      col_index = [1, 4, 6, 2, 3, 8, 5, 7, 9],
      col_values = Col_vals [85, 217, 173, 80, 250, 84, 103, 186, 183],
      row_values = []\<rparr>"
  by (simp add: germany_routes_def load_routes)

lemma dfs_init_germany_routes:
  "dfs_init germany_routes 0 =
     Inr \<lparr>visited = [True, False, False, False, False, False, False, False, False, False],
          stack = [\<lparr>vertex_id = 0, edge_cursor = 0, edge_end = 3\<rparr>],
          cancel_flag = None\<rparr>"
  by (simp add: germany_routes_eq dfs_init_def num_vertices_def vertices_def edges_def
      to_VId_def replicate_numeral)

section \<open>Properties of the loads\<close>

subsection \<open>The loop of load\_edges\<close>

lemma to_VId_id: "n < 2 ^ 32 \<Longrightarrow> to_VId n = n"
  by (simp add: to_VId_def)

lemma length_resize: "length (resize xs n v) = n"
  by (simp add: resize_def)

lemma resize_grow: "length xs \<le> n \<Longrightarrow> resize xs n v = xs @ replicate (n - length xs) v"
  by (simp add: resize_def)

lemma sorted_append_replicate:
  "sorted (xs @ replicate k (v::nat)) = (sorted xs \<and> (0 < k \<longrightarrow> (\<forall>x\<in>set xs. x \<le> v)))"
  by (auto simp: sorted_append)

lemma to_size_t_id: "n < 2 ^ 64 \<Longrightarrow> to_size_t n = n"
  by (simp add: to_size_t_def)

lemma col_size_push_back:
  "col_size (col_push_back cv x) = (if cv = Col_void then 0 else col_size cv + 1)"
  by (cases cv) simp_all

lemma col_push_back_void: "(col_push_back cv x = Col_void) = (cv = Col_void)"
  by (cases cv) simp_all

lemma load_inv_step:
  assumes inv: "load_inv g last_uid" and ord: "last_uid \<le> source_id edge"
    and bound: "length (col_index g) < 2 ^ 32"
  shows "load_inv
           (g\<lparr>row_index := resize (row_index g) (source_id edge + 1)
                              (to_VId (col_size (col_values g))),
              col_index := col_index g @ [target_id edge],
              col_values := col_push_back (col_values g) (val edge)\<rparr>)
           (source_id edge)"
proof -
  from inv have "col_size (col_values g) \<le> length (col_index g)"
    by (simp add: load_inv_def)
  with bound have "col_size (col_values g) < 2 ^ 32" by simp
  then have fill: "to_VId (col_size (col_values g)) = col_size (col_values g)"
    by (rule to_VId_id)
  from inv ord have len: "length (row_index g) \<le> source_id edge + 1"
    by (simp add: load_inv_def)
  have rows: "resize (row_index g) (source_id edge + 1) (col_size (col_values g)) =
      row_index g @ replicate (source_id edge + 1 - length (row_index g))
        (col_size (col_values g))"
    using len by (rule resize_grow)
  show ?thesis
    using inv len unfolding load_inv_def fill rows
    by (auto simp: sorted_append_replicate nth_append le_Suc_eq col_size_push_back
        col_push_back_void)
qed

lemma add_edges_inv:
  "add_edges g last_uid max_vid erng = Inr (g', max_vid') \<Longrightarrow> load_inv g last_uid \<Longrightarrow>
   length (col_index g) + length erng \<le> 2 ^ 32 \<Longrightarrow>
     load_inv g' (if erng = [] then last_uid else source_id (last erng)) \<and>
     col_index g' = col_index g @ map target_id erng \<and>
     (\<forall>v. col_values g = Col_vals v \<longrightarrow> col_values g' = Col_vals (v @ map val erng)) \<and>
     (col_values g' = Col_void) = (col_values g = Col_void) \<and>
     row_values g' = row_values g \<and>
     length (row_index g') =
       (if erng = [] then length (row_index g) else source_id (last erng) + 1) \<and>
     max_vid \<le> max_vid' \<and> (\<forall>e\<in>set erng. target_id e \<le> max_vid') \<and>
     max_vid' \<in> insert max_vid (target_id ` set erng)"
proof (induction erng arbitrary: g last_uid max_vid)
  case Nil
  then show ?case by simp
next
  case (Cons edge erng)
  let ?g1 = "g\<lparr>row_index := resize (row_index g) (source_id edge + 1)
                                (to_VId (col_size (col_values g))),
                col_index := col_index g @ [target_id edge],
                col_values := col_push_back (col_values g) (val edge)\<rparr>"
  from Cons.prems(1) have ord: "last_uid \<le> source_id edge"
    and rec: "add_edges ?g1 (source_id edge) (max max_vid (target_id edge)) erng = Inr (g', max_vid')"
    by (auto split: if_splits)
  from Cons.prems(3) have b: "length (col_index g) < 2 ^ 32" by simp
  have inv1: "load_inv ?g1 (source_id edge)"
    using Cons.prems(2) ord b by (rule load_inv_step)
  from Cons.prems(3) have b1: "length (col_index ?g1) + length erng \<le> 2 ^ 32" by simp
  note IH = Cons.IH [OF rec inv1 b1]
  have len1: "length (row_index ?g1) = source_id edge + 1"
    by (simp add: length_resize)
  from IH have mono: "max max_vid (target_id edge) \<le> max_vid'"
    and mem: "max_vid' \<in> insert (max max_vid (target_id edge)) (target_id ` set erng)"
    by blast+
  from mono have "target_id edge \<le> max_vid'" "max_vid \<le> max_vid'"
    by simp_all
  moreover have "max_vid' \<in> insert max_vid (target_id ` set (edge # erng))"
    using mem by (auto simp: max_def split: if_splits)
  ultimately show ?case
    using IH len1 by (cases "col_values g") (auto)
qed

text \<open>
  What a successful load of a non-empty edge sequence leaves, when the edge count and
  the ids fit \<open>VId\<close> and \<open>vertex_count + 1\<close> does not wrap.
\<close>

lemma load_edges_result:
  assumes ok: "load_edges vv0 bidirectional vertex_count g erng = Inr g'"
    and ne: "erng \<noteq> []"
    and edges_fit: "length erng < 2 ^ 32"
    and ids_fit: "\<forall>e\<in>set erng. source_id e < 2 ^ 32 \<and> target_id e + 1 < 2 ^ 32"
    and hint_fit: "vertex_count + 1 < 2 ^ 64"
  shows "sorted (row_index g') \<and> row_index g' ! 0 = 0 \<and>
         length (row_index g') = num_vertices g' + 1 \<and>
         (\<forall>t\<in>set (col_index g'). t < num_vertices g') \<and>
         col_index g' = map target_id erng \<and>
         (col_values g \<noteq> Col_void \<longrightarrow>
            row_index g' ! num_vertices g' = length (col_index g') \<and>
            col_values g' = Col_vals (map val erng)) \<and>
         (vertex_count < 2 ^ 32 \<longrightarrow> source_id (last erng) + 1 < 2 ^ 32 \<longrightarrow>
            num_vertices g' < 2 ^ 32)"
proof -
  from ok have empty: "row_index g = []" "col_index g = []" "col_empty (col_values g)"
    by (auto simp: load_edges_def split: if_splits)
  then have size0: "col_size (col_values g) = 0"
    by (cases "col_values g") auto
  from empty size0 have inv0: "load_inv g 0"
    by (simp add: load_inv_def)
  from ok empty ne obtain g1 max_vid where
    loop: "add_edges g 0 0 erng = Inr (g1, max_vid)"
    by (auto simp: load_edges_def Let_def split: if_splits sum.splits)
  from empty edges_fit have "length (col_index g) + length erng \<le> 2 ^ 32" by simp
  note L = add_edges_inv [OF loop inv0 this]
  from L ne have inv1: "load_inv g1 (source_id (last erng))" by simp
  from L empty have col1: "col_index g1 = map target_id erng" by simp
  from L have void1: "(col_values g1 = Col_void) = (col_values g = Col_void)" by blast
  from L ne have len1: "length (row_index g1) = source_id (last erng) + 1" by simp
  from L have tg: "\<forall>e\<in>set erng. target_id e \<le> max_vid"
    and mem: "max_vid \<in> insert 0 (target_id ` set erng)" by blast+
  from ids_fit have "\<forall>e\<in>set erng. target_id e + 1 < 2 ^ 32" by blast
  with mem have mvb: "max_vid + 1 < 2 ^ 32" by auto
  then have mv: "to_VId (Suc max_vid) = Suc max_vid" by (simp add: to_VId_id)
  from ne have "last erng \<in> set erng" by (rule last_in_set)
  with ids_fit have srcb: "source_id (last erng) < 2 ^ 32" by blast
  define fill where "fill = col_size (col_values g1)"
  from inv1 col1 have fill_le: "fill \<le> length erng"
    and fill_eq: "col_values g1 \<noteq> Col_void \<longrightarrow> fill = length erng"
    by (auto simp: load_inv_def fill_def)
  from fill_le edges_fit have "fill < 2 ^ 32" by simp
  then have tofill: "to_VId (col_size (col_values g1)) = fill"
    unfolding fill_def by (rule to_VId_id)
  define vc1 where "vc1 = max vertex_count (to_VId (Suc (last_erng_id bidirectional erng)))"
  define vc2 where "vc2 = max vc1 (max (length (row_index g1)) (Suc max_vid))"
  have small: "to_VId (Suc (last_erng_id bidirectional erng)) < 2 ^ 32"
    by (simp add: to_VId_def)
  have p: "(2 :: nat) ^ 32 < 2 ^ 64" by simp
  from small hint_fit p have "vc1 + 1 < 2 ^ 64" by (simp add: vc1_def max_def)
  with len1 srcb mvb p have "vc2 + 1 < 2 ^ 64" by (simp add: vc2_def max_def)
  then have wrap: "to_size_t (Suc vc2) = Suc vc2" by (simp add: to_size_t_id)
  define rows where "rows = row_index g1 @ replicate (Suc vc2 - length (row_index g1)) fill"
  have ge: "length (row_index g1) \<le> Suc vc2" by (simp add: vc2_def)
  have rows_eq: "resize (row_index g1) (Suc vc2) fill = rows"
    unfolding rows_def using ge by (rule resize_grow)
  from ok empty ne loop
  have "row_index g' =
      resize (row_index g1) (to_size_t (Suc vc2)) (to_VId (col_size (col_values g1)))"
    and g': "col_index g' = col_index g1" "col_values g' = col_values g1"
    by (auto simp: load_edges_def Let_def mv vc1_def vc2_def split: if_splits)
  with wrap tofill rows_eq have rows': "row_index g' = rows" by simp
  have lenrows: "length rows = vc2 + 1"
    unfolding rows_def using ge by simp
  then have nv: "num_vertices g' = vc2"
    by (auto simp: num_vertices_def vertices_def rows')
  from inv1 have s1: "sorted (row_index g1)"
    and le1: "\<forall>r\<in>set (row_index g1). r \<le> fill"
    and z1: "row_index g1 \<noteq> [] \<longrightarrow> row_index g1 ! 0 = 0"
    by (auto simp: load_inv_def fill_def)
  from len1 have ne1: "row_index g1 \<noteq> []" by auto
  have a: "sorted rows"
    unfolding rows_def using s1 le1 by (simp add: sorted_append_replicate)
  have b: "rows ! 0 = 0"
    unfolding rows_def using ne1 z1 by (simp add: nth_append)
  have c: "rows ! vc2 = fill"
  proof -
    have "length (row_index g1) \<le> vc2" by (simp add: vc2_def)
    then show ?thesis
      unfolding rows_def by (simp add: nth_append)
  qed
  have d: "\<forall>t\<in>set (col_index g1). t < vc2"
  proof
    fix t assume "t \<in> set (col_index g1)"
    with col1 tg have "t \<le> max_vid" by auto
    then show "t < vc2" by (simp add: vc2_def)
  qed
  have e: "col_values g \<noteq> Col_void \<longrightarrow>
      rows ! vc2 = length (col_index g1) \<and> col_values g1 = Col_vals (map val erng)"
  proof
    assume nonvoid: "col_values g \<noteq> Col_void"
    with empty have "col_values g = Col_vals []" by (cases "col_values g") auto
    with L have "col_values g1 = Col_vals (map val erng)" by simp
    moreover from nonvoid void1 fill_eq have "fill = length erng" by simp
    ultimately show "rows ! vc2 = length (col_index g1) \<and>
        col_values g1 = Col_vals (map val erng)"
      using c col1 by simp
  qed
  have f: "vertex_count < 2 ^ 32 \<longrightarrow> source_id (last erng) + 1 < 2 ^ 32 \<longrightarrow> vc2 < 2 ^ 32"
  proof (intro impI)
    assume "vertex_count < 2 ^ 32" and sb: "source_id (last erng) + 1 < 2 ^ 32"
    with small have "vc1 < 2 ^ 32" by (simp add: vc1_def)
    with len1 sb mvb show "vc2 < 2 ^ 32" by (simp add: vc2_def)
  qed
  from a b c d e f lenrows nv col1 show ?thesis
    by (simp add: g' rows')
qed

lemma load_edges_nonvoid:
  assumes ok: "load_edges vv0 bidirectional vertex_count g erng = Inr g'"
    and ne: "erng \<noteq> []"
    and nonvoid: "col_values g \<noteq> Col_void"
    and edges_fit: "length erng < 2 ^ 32"
    and ids_fit: "\<forall>e\<in>set erng. source_id e < 2 ^ 32 \<and> target_id e + 1 < 2 ^ 32"
    and hint_fit: "vertex_count + 1 < 2 ^ 64"
  shows "structural_invariants g' \<and>
         length (row_index g') = num_vertices g' + 1 \<and>
         col_index g' = map target_id erng \<and>
         col_values g' = Col_vals (map val erng)"
  using load_edges_result [OF ok ne edges_fit ids_fit hint_fit] nonvoid
  by (simp add: structural_invariants_def)

subsection \<open>Flattening the edge ranges\<close>

lemma upt_append_upt: "i \<le> j \<Longrightarrow> j \<le> k \<Longrightarrow> [i ..< j] @ [j ..< k] = [i ..< k]"
  by (metis le_Suc_ex upt_add_eq_append)

lemma edges_in_range:
  assumes inv: "structural_invariants g" and len: "length (row_index g) = num_vertices g + 1"
    and fit: "num_vertices g < 2 ^ 32" and v: "v < num_vertices g"
  shows "edges g v = Inr (row_index g ! v, row_index g ! (v + 1))"
proof -
  from v fit have wrap: "to_VId (v + 1) = v + 1" by (simp add: to_VId_id)
  from inv have s: "sorted (row_index g)"
    and l: "row_index g ! num_vertices g = length (col_index g)"
    by (auto simp: structural_invariants_def)
  from v len have "row_index g ! (v + 1) \<le> row_index g ! num_vertices g"
    by (intro sorted_nth_mono [OF s]) auto
  with l v len show ?thesis
    unfolding edges_def wrap by simp
qed

lemma flatten_edges_upt:
  assumes inv: "structural_invariants g" and len: "length (row_index g) = num_vertices g + 1"
    and fit: "num_vertices g < 2 ^ 32"
  shows "k \<le> n \<Longrightarrow> n \<le> num_vertices g \<Longrightarrow>
           flatten_edges g [k ..< n] = Inr [row_index g ! k ..< row_index g ! n]"
proof (induction "n - k" arbitrary: k)
  case 0
  then show ?case by simp
next
  case (Suc d)
  then have k: "k < n" "k < num_vertices g" by auto
  from inv have s: "sorted (row_index g)" by (simp add: structural_invariants_def)
  from Suc have IH: "flatten_edges g [Suc k ..< n] = Inr [row_index g ! Suc k ..< row_index g ! n]"
    by simp
  have a: "row_index g ! k \<le> row_index g ! Suc k"
    using k len Suc.prems by (intro sorted_nth_mono [OF s]) auto
  have b: "row_index g ! Suc k \<le> row_index g ! n"
    using k len Suc.prems by (intro sorted_nth_mono [OF s]) auto
  from k have "[k ..< n] = k # [Suc k ..< n]" by (simp add: upt_conv_Cons)
  then show ?case
    using IH edges_in_range [OF inv len fit k(2)] a b
    by (simp add: upt_append_upt)
qed


text \<open>
  The round trip for a non-void edge value type, when the edge count, the ids and the
  vertex count fit \<open>VId\<close>: flattening \<open>edges(g, v)\<close> over all vertices yields the
  target ids and the edge values of the input, in input order.
\<close>

lemma load_edges_round_trip:
  assumes ok: "load_edges vv0 bidirectional vertex_count g erng = Inr g'"
    and nonvoid: "col_values g \<noteq> Col_void"
    and edges_fit: "length erng < 2 ^ 32"
    and ids_fit: "\<forall>e\<in>set erng. source_id e + 1 < 2 ^ 32 \<and> target_id e + 1 < 2 ^ 32"
    and count_fit: "vertex_count < 2 ^ 32"
  shows "\<exists>uvs. flatten_edges g' [0 ..< num_vertices g'] = Inr uvs \<and>
           map (target_id_of g') uvs = map target_id erng \<and>
           map (edge_value g') uvs = map (\<lambda>e. Some (val e)) erng"
proof (cases "erng = []")
  case True
  with ok have "g' = g" "row_index g = []" "col_index g = []"
    by (auto simp: load_edges_def split: if_splits)
  with True show ?thesis by (simp add: num_vertices_def vertices_def)
next
  case False
  from ids_fit have idf: "\<forall>e\<in>set erng. source_id e < 2 ^ 32 \<and> target_id e + 1 < 2 ^ 32"
    by auto
  have p: "(2 :: nat) ^ 32 < 2 ^ 64" by simp
  with count_fit have hf: "vertex_count + 1 < 2 ^ 64" by simp
  note R = load_edges_nonvoid [OF ok False nonvoid edges_fit idf hf]
  from R have inv: "structural_invariants g'"
    and len: "length (row_index g') = num_vertices g' + 1"
    and col: "col_index g' = map target_id erng"
    and vals: "col_values g' = Col_vals (map val erng)"
    by blast+
  from False have "last erng \<in> set erng" by (rule last_in_set)
  with ids_fit have sf: "source_id (last erng) + 1 < 2 ^ 32" by blast
  from load_edges_result [OF ok False edges_fit idf hf] count_fit sf
  have fit: "num_vertices g' < 2 ^ 32" by blast
  from inv have z: "row_index g' ! 0 = 0" "row_index g' ! num_vertices g' = length (col_index g')"
    by (auto simp: structural_invariants_def)
  from flatten_edges_upt [OF inv len fit, of 0 "num_vertices g'"] z col
  have fl: "flatten_edges g' [0 ..< num_vertices g'] = Inr [0 ..< length erng]" by simp
  have "map (target_id_of g') [0 ..< length erng] = map target_id erng"
    by (rule nth_equalityI) (simp_all add: target_id_of_def col)
  moreover have "map (edge_value g') [0 ..< length erng] = map (\<lambda>e. Some (val e)) erng"
    by (rule nth_equalityI) (simp_all add: vals)
  ultimately show ?thesis using fl by simp
qed

subsection \<open>Failures of load\_edges\<close>

lemma add_edges_append:
  "add_edges g last_uid max_vid (xs @ ys) =
     (case add_edges g last_uid max_vid xs of
        Inl e \<Rightarrow> Inl e
      | Inr (g1, max_vid1) \<Rightarrow>
          add_edges g1 (if xs = [] then last_uid else source_id (last xs)) max_vid1 ys)"
  by (induction xs arbitrary: g last_uid max_vid) (auto split: sum.splits)

lemma add_edges_sorted:
  "sorted (last_uid # map source_id erng) \<Longrightarrow> \<exists>r. add_edges g last_uid max_vid erng = Inr r"
  by (induction erng arbitrary: g last_uid max_vid)
    (simp_all add: sorted2_simps del: sorted_wrt.simps)

lemma add_edges_unsorted:
  "\<not> sorted (last_uid # map source_id erng) \<Longrightarrow>
     add_edges g last_uid max_vid erng = Inl OutOfOrder"
  by (induction erng arbitrary: g last_uid max_vid)
    (simp_all add: sorted2_simps del: sorted_wrt.simps)

lemma add_edges_error:
  "add_edges g last_uid max_vid erng = Inl e \<Longrightarrow> e = OutOfOrder"
  by (induction erng arbitrary: g last_uid max_vid) (auto split: if_splits)


subsection \<open>The loop of load\_row\_values\<close>

lemma assign_row_values_append:
  "assign_row_values v (xs @ ys) =
     (case assign_row_values v xs of Inl e \<Rightarrow> Inl e | Inr v1 \<Rightarrow> assign_row_values v1 ys)"
  by (induction xs arbitrary: v) auto

lemma assign_row_values_length:
  "assign_row_values v vrng = Inr v' \<Longrightarrow> length v' = length v"
  by (induction vrng arbitrary: v) (auto split: if_splits)

lemma assign_row_values_other:
  "assign_row_values v vrng = Inr v' \<Longrightarrow> uid \<notin> fst ` set vrng \<Longrightarrow> v' ! uid = v ! uid"
  by (induction vrng arbitrary: v) (auto split: if_splits)

lemma assign_row_values_last:
  assumes ok: "assign_row_values v (before @ (uid, vval) # after) = Inr v'"
    and last: "uid \<notin> fst ` set after"
  shows "uid < length v' \<and> v' ! uid = vval"
proof -
  from ok obtain v1 where
    b: "assign_row_values v before = Inr v1" and
    r: "assign_row_values v1 ((uid, vval) # after) = Inr v'"
    by (auto simp: assign_row_values_append split: sum.splits)
  from r have lt: "uid < length v1" and a: "assign_row_values (v1[uid := vval]) after = Inr v'"
    by (auto split: if_splits)
  from assign_row_values_other [OF a last] lt have "v' ! uid = vval" by simp
  moreover from assign_row_values_length [OF a] lt have "uid < length v'" by simp
  ultimately show ?thesis by simp
qed

section \<open>Properties of the traversal\<close>

lemma dfs_next_yield:
  "dfs_next g s = Inr (Some (u, v, e), s') \<Longrightarrow>
     v < length (visited s) \<and> \<not> visited s ! v \<and> visited s' = (visited s)[v := True] \<and>
     (\<exists>fr rest. stack s' = fr # rest \<and> vertex_id fr = v)"
  by (auto simp: dfs_next_def split: option.splits cancel_search.splits dest!: advance_yield)

text \<open>A traversal yields only vertices that its starting state has not visited.\<close>

lemma traverse_yields_unvisited:
  "traverse g body s = Inr ys \<Longrightarrow> (u, v, e) \<in> set ys \<Longrightarrow>
     v < length (visited s) \<and> \<not> visited s ! v"
proof (induction g body s arbitrary: ys rule: traverse.induct)
  case (1 g body s)
  from "1.prems" obtain y s' ys' where
    nx: "dfs_next g s = Inr (Some y, s')" and
    rec: "traverse g body (case body y of None \<Rightarrow> s' | Some policy \<Rightarrow> dfs_cancel s' policy)
            = Inr ys'" and
    ys: "ys = y # ys'"
    by (auto simp: traverse.simps [of g body s] split: sum.splits option.splits)
  obtain u0 v0 e0 where y: "y = (u0, v0, e0)" by (cases y)
  from nx y have step:
    "v0 < length (visited s)" "\<not> visited s ! v0" "visited s' = (visited s)[v0 := True]"
    by (auto dest: dfs_next_yield)
  show ?case
  proof (cases "(u, v, e) = y")
    case True
    with y step show ?thesis by simp
  next
    case False
    with "1.prems"(2) ys have "(u, v, e) \<in> set ys'" by simp
    from "1.IH" [OF nx refl refl rec this]
    have "v < length (visited s') \<and> \<not> visited s' ! v"
      by (auto simp: dfs_cancel_def split: option.splits)
    with step show ?thesis by (cases "v = v0") auto
  qed
qed

lemma dfs_vertex_range_no_seed:
  "dfs_vertex_range g seed body = Inr uids \<Longrightarrow> seed \<notin> set uids"
proof
  assume r: "dfs_vertex_range g seed body = Inr uids" and m: "seed \<in> set uids"
  from r obtain s ys where i: "dfs_init g seed = Inr s"
    and t: "traverse g (\<lambda>(uid, vid, uv). body vid) s = Inr ys"
    and u: "uids = map (\<lambda>(uid, vid, uv). vid) ys"
    by (auto simp: dfs_vertex_range_def dfs_sourced_edge_range_def split: sum.splits)
  from m u obtain u0 e where "(u0, seed, e) \<in> set ys" by auto
  from traverse_yields_unvisited [OF t this]
  have "seed < length (visited s)" "\<not> visited s ! seed" by auto
  moreover from i have "visited s ! seed"
    by (auto simp: dfs_init_def split: if_splits sum.splits)
  ultimately show False by simp
qed

lemma dfs_next_cancel_branch:
  "stack s = fr # rest \<Longrightarrow>
     dfs_next g (dfs_cancel s cancel_branch) = advance g (s\<lparr>stack := rest, cancel_flag := None\<rparr>)"
  by (simp add: dfs_next_def dfs_cancel_def)

lemma dfs_next_source:
  "dfs_next g s = Inr (Some (u, v, e), s') \<Longrightarrow>
     u \<in> vertex_id ` set (pending_stack s) \<and> cancel_flag s' = None \<and>
     (\<exists>fr rest. stack s' = fr # rest \<and> vertex_id fr = v \<and>
        vertex_id ` set rest \<subseteq> vertex_id ` set (pending_stack s))"
  by (auto simp: dfs_next_def pending_stack_def split: option.splits cancel_search.splits
      dest!: advance_yield)

text \<open>
  When the loop body cancels the branch at every yield of \<open>v\<close>, and \<open>v\<close> has no frame
  on the stack the traversal starts from, no yielded event has the source \<open>v\<close>.
\<close>

lemma traverse_cancel_branch_no_source:
  "traverse g body s = Inr ys \<Longrightarrow> \<forall>u e. body (u, v, e) = Some cancel_branch \<Longrightarrow>
   v \<notin> vertex_id ` set (pending_stack s) \<Longrightarrow> (u, w, e) \<in> set ys \<Longrightarrow> u \<noteq> v"
proof (induction g body s arbitrary: ys rule: traverse.induct)
  case (1 g body s)
  from "1.prems"(1,4) obtain y s' ys' where
    nx: "dfs_next g s = Inr (Some y, s')" and
    rec: "traverse g body (case body y of None \<Rightarrow> s' | Some policy \<Rightarrow> dfs_cancel s' policy)
            = Inr ys'" and
    ys: "ys = y # ys'"
    by (auto simp: traverse.simps [of g body s] split: sum.splits option.splits)
  let ?s'' = "case body y of None \<Rightarrow> s' | Some policy \<Rightarrow> dfs_cancel s' policy"
  obtain u0 v0 e0 where y: "y = (u0, v0, e0)" by (cases y)
  from dfs_next_source [OF nx [unfolded y]] obtain fr rest where
    src: "u0 \<in> vertex_id ` set (pending_stack s)" and flag: "cancel_flag s' = None" and
    st: "stack s' = fr # rest" "vertex_id fr = v0"
        "vertex_id ` set rest \<subseteq> vertex_id ` set (pending_stack s)"
    by blast
  from src "1.prems"(3) have u0: "u0 \<noteq> v" by auto
  have absent: "v \<notin> vertex_id ` set (pending_stack ?s'')"
  proof (cases "v0 = v")
    case True
    with "1.prems"(2) y have "body y = Some cancel_branch" by simp
    with st "1.prems"(3) show ?thesis
      by (auto simp: pending_stack_def dfs_cancel_def)
  next
    case False
    with st "1.prems"(3) flag show ?thesis
      by (cases "body y")
        (auto simp: pending_stack_def dfs_cancel_def split: cancel_search.splits)
  qed
  show ?case
  proof (cases "(u, w, e) = y")
    case True
    with y u0 show ?thesis by simp
  next
    case False
    with "1.prems"(4) ys have "(u, w, e) \<in> set ys'" by simp
    from "1.IH" [OF nx refl refl rec "1.prems"(2) absent this] show ?thesis .
  qed
qed

text \<open>Hence \<open>v\<close> is the DFS-tree ancestor of no yielded vertex.\<close>

lemma dfs_cancel_branch_no_descendant:
  assumes r: "dfs_sourced_edge_range g seed body = Inr ys"
    and c: "\<forall>u e. body (u, v, e) = Some cancel_branch" and v: "v \<noteq> seed"
  shows "\<not> dfs_ancestor ys v w"
proof
  assume "dfs_ancestor ys v w"
  then have "(v, w) \<in> (dfs_parent ys)\<^sup>+" by (simp add: dfs_ancestor_def)
  then obtain w' where "(v, w') \<in> dfs_parent ys"
    by (auto elim: converse_tranclE)
  then obtain e where m: "(v, w', e) \<in> set ys" by (auto simp: dfs_parent_def)
  from r obtain s where i: "dfs_init g seed = Inr s" and t: "traverse g body s = Inr ys"
    by (auto simp: dfs_sourced_edge_range_def split: sum.splits)
  from i v have "v \<notin> vertex_id ` set (pending_stack s)"
    by (auto simp: dfs_init_def pending_stack_def split: if_splits sum.splits)
  from traverse_cancel_branch_no_source [OF t c this m] show False by simp
qed

lemma dfs_sourced_edge_range_germany_routes:
  "dfs_sourced_edge_range germany_routes 0 (\<lambda>(uid, vid, uv). None) =
     Inr [(0, 1, 0), (1, 2, 3), (2, 3, 4), (3, 8, 5), (0, 4, 1), (4, 5, 6), (5, 9, 8),
          (4, 7, 7), (0, 6, 2)]"
  unfolding dfs_sourced_edge_range_def dfs_init_germany_routes
  by (simp add: traverse.simps advance.simps dfs_next_def Let_def germany_routes_eq
      edges_def to_VId_def target_id_of_def list_update_Cons_numeral)

lemma dfs_sourced_edge_range_cancel_branch:
  "dfs_sourced_edge_range germany_routes 0
     (\<lambda>(uid, vid, uv). if vid = 4 then Some cancel_branch else None) =
     Inr [(0, 1, 0), (1, 2, 3), (2, 3, 4), (3, 8, 5), (0, 4, 1), (0, 6, 2)]"
  unfolding dfs_sourced_edge_range_def dfs_init_germany_routes
  by (simp add: traverse.simps advance.simps dfs_next_def Let_def germany_routes_eq
      edges_def to_VId_def target_id_of_def list_update_Cons_numeral dfs_cancel_def)

section \<open>The claims\<close>

text \<open>
  C1, at an input where it fails. With \<open>EV = void\<close> the load of the single edge (0, 1)
  succeeds and gives two vertices, every row offset is 0, and flattening
  \<open>edges(g, v)\<close> over the vertices 0 and 1 yields no edge, while the input has the
  target id 1.
\<close>

theorem load_edges_void_edge_value:
  "(case load_edges vv0 True 0 (empty_graph Col_void) [mk_edge 0 1 ()] of
      Inl err \<Rightarrow> False
    | Inr g \<Rightarrow>
        row_index g = [0, 0, 0] \<and> col_index g = [1] \<and> num_vertices g = 2 \<and>
        flatten_edges g [0 ..< num_vertices g] = Inr []) \<and>
   map target_id [mk_edge 0 1 ()] = [1]"
  by (simp add: load_edges_def empty_graph_def mk_edge_def resize_def to_VId_def
      to_size_t_def last_erng_id_def replicate_numeral edges_def num_vertices_def vertices_def)

text \<open>
  C2. Loading the nine German routes
  (0,1,85)(0,4,217)(0,6,173)(1,2,80)(2,3,250)(3,8,84)(4,5,103)(4,7,186)(5,9,183) into an
  empty graph succeeds, and the graph then has 10 vertices, 9 edges, the row offsets
  [0,3,4,5,6,8,9,9,9,9,9] and the column targets [1,4,6,2,3,8,5,7,9].
\<close>

theorem load_edges_routes:
  "load_edges [] bidirectional 0 (empty_graph (Col_vals [])) routes = Inr germany_routes \<and>
   num_vertices germany_routes = 10 \<and> num_edges germany_routes = 9 \<and>
   row_index germany_routes = [0, 3, 4, 5, 6, 8, 9, 9, 9, 9, 9] \<and>
   col_index germany_routes = [1, 4, 6, 2, 3, 8, 5, 7, 9]"
  by (simp add: load_routes germany_routes_eq num_vertices_def num_edges_def vertices_def)

text \<open>
  C3, at three inputs where it fails. The load of the empty edge sequence succeeds and
  leaves \<open>row_index_\<close> empty: there is no \<open>row_offsets[0]\<close> and no
  \<open>row_offsets[|V|]\<close>. The load of the single edge from 0 to 4294967295, the largest
  \<open>uint32_t\<close>, succeeds with one vertex, since \<open>max_vid + 1\<close> wraps to 0: the target
  is not below the number of vertices. The load of the single edge from 0 to 1 with the
  vertex count 18446744073709551615, the largest \<open>size_t\<close>, into a graph without
  vertex values succeeds with \<open>row_index_\<close> empty and one column target, since
  \<open>vertex_count + 1\<close> wraps to 0.
\<close>

theorem load_edges_invariants_fail:
  "load_edges (0 :: nat) True 0 (empty_graph (Col_vals [])) ([] :: int copyable_edge list)
     = Inr (empty_graph (Col_vals [])) \<and>
   \<not> structural_invariants (empty_graph (Col_vals []) :: (int, nat) csr_graph) \<and>
   (case load_edges (0 :: nat) True 0 (empty_graph (Col_vals []))
           [mk_edge 0 4294967295 (1 :: int)] of
      Inl err \<Rightarrow> False
    | Inr g \<Rightarrow>
        row_index g = [0, 1] \<and> col_index g = [4294967295] \<and> num_vertices g = 1 \<and>
        \<not> structural_invariants g) \<and>
   (case load_edges () True 18446744073709551615 (empty_graph (Col_vals []))
           [mk_edge 0 1 (7 :: int)] of
      Inl err \<Rightarrow> False
    | Inr g \<Rightarrow>
        row_index g = [] \<and> col_index g = [1] \<and> num_vertices g = 0 \<and>
        \<not> structural_invariants g)"
  by (simp add: load_edges_def empty_graph_def structural_invariants_def mk_edge_def
      resize_def to_VId_def to_size_t_def last_erng_id_def num_vertices_def vertices_def)

text \<open>
  C3, amended. For every graph produced by a successful \<open>load_edges\<close> of fewer than
  \<open>2 ^ 32\<close> edges whose source ids are 32-bit values and whose target ids are below
  \<open>2 ^ 32 - 1\<close> (the edge count and the vertex count fit \<open>VId\<close>), with a vertex count
  below the largest \<open>size_t\<close>: after an empty edge sequence \<open>row_offsets\<close> is empty;
  after a non-empty one \<open>row_offsets\<close> is non-decreasing, \<open>row_offsets[0] == 0\<close>,
  \<open>row_offsets\<close> has the element \<open>|V|\<close>, every entry of \<open>col_targets\<close> is below
  \<open>|V|\<close>, and, for a non-void edge value type,
  \<open>row_offsets[|V|] == |col_targets|\<close>: all the structural invariants hold.
\<close>

theorem load_edges_structural_invariants:
  "load_edges vv0 bidirectional vertex_count g erng = Inr g' \<Longrightarrow>
   length erng < 2 ^ 32 \<Longrightarrow>
   \<forall>e\<in>set erng. source_id e < 2 ^ 32 \<and> target_id e + 1 < 2 ^ 32 \<Longrightarrow>
   vertex_count + 1 < 2 ^ 64 \<Longrightarrow>
     (erng = [] \<longrightarrow> row_index g' = []) \<and>
     (erng \<noteq> [] \<longrightarrow>
        sorted (row_index g') \<and>
        0 < length (row_index g') \<and> row_index g' ! 0 = 0 \<and>
        num_vertices g' < length (row_index g') \<and>
        (\<forall>t\<in>set (col_index g'). t < num_vertices g') \<and>
        (col_values g \<noteq> Col_void \<longrightarrow>
           row_index g' ! num_vertices g' = length (col_index g') \<and>
           structural_invariants g'))"
proof (intro conjI impI)
  assume "load_edges vv0 bidirectional vertex_count g erng = Inr g'" and "erng = []"
  then show "row_index g' = []"
    by (auto simp: load_edges_def split: if_splits)
next
  assume ok: "load_edges vv0 bidirectional vertex_count g erng = Inr g'"
    and ef: "length erng < 2 ^ 32"
    and idf: "\<forall>e\<in>set erng. source_id e < 2 ^ 32 \<and> target_id e + 1 < 2 ^ 32"
    and hf: "vertex_count + 1 < 2 ^ 64" and ne: "erng \<noteq> []"
  note R = load_edges_result [OF ok ne ef idf hf]
  from R show "sorted (row_index g')" by blast
  from R show "0 < length (row_index g')" by simp
  from R show "row_index g' ! 0 = 0" by blast
  from R show "num_vertices g' < length (row_index g')" by simp
  from R show "\<forall>t\<in>set (col_index g'). t < num_vertices g'" by blast
  assume nonvoid: "col_values g \<noteq> Col_void"
  from R nonvoid show "row_index g' ! num_vertices g' = length (col_index g')" by blast
  from load_edges_nonvoid [OF ok ne nonvoid ef idf hf]
  show "structural_invariants g'" by blast
qed

theorem load_edges_structural_invariants_witness:
  "load_edges [] True 0 (empty_graph (Col_vals [])) routes = Inr germany_routes \<and>
   routes \<noteq> [] \<and>
   col_values (empty_graph (Col_vals []) :: (int, string) csr_graph) \<noteq> Col_void \<and>
   length routes < 2 ^ 32 \<and>
   list_all (\<lambda>e. source_id e < 2 ^ 32 \<and> target_id e + 1 < 2 ^ 32) routes \<and>
   (0 :: nat) + 1 < 2 ^ 64 \<and>
   sorted (row_index germany_routes) \<and> row_index germany_routes ! 0 = 0 \<and>
   row_index germany_routes ! num_vertices germany_routes = length (col_index germany_routes) \<and>
   structural_invariants germany_routes \<and>
   load_edges [] True 0 (empty_graph (Col_vals []) :: (int, string) csr_graph) []
     = Inr (empty_graph (Col_vals [])) \<and>
   row_index (empty_graph (Col_vals []) :: (int, string) csr_graph) = []"
proof -
  have h: "load_edges [] True 0 (empty_graph (Col_vals [])) routes = Inr germany_routes"
    by (simp add: load_routes germany_routes_eq)
  have n: "routes \<noteq> []" by (simp add: routes_def)
  have v: "col_values (empty_graph (Col_vals []) :: (int, string) csr_graph) \<noteq> Col_void"
    by (simp add: empty_graph_def)
  have l: "length routes < 2 ^ 32" by (simp add: routes_def)
  have t: "\<forall>e\<in>set routes. source_id e < 2 ^ 32 \<and> target_id e + 1 < 2 ^ 32"
    by (simp add: routes_def mk_edge_def)
  have c: "(0 :: nat) + 1 < 2 ^ 64" by simp
  let ?g0 = "empty_graph (Col_vals []) :: (int, string) csr_graph"
  have h0: "load_edges [] True 0 ?g0 [] = Inr ?g0"
    by (simp add: load_edges_def empty_graph_def)
  have l0: "length ([] :: int copyable_edge list) < 2 ^ 32" by simp
  have t0: "\<forall>e\<in>set ([] :: int copyable_edge list).
      source_id e < 2 ^ 32 \<and> target_id e + 1 < 2 ^ 32" by simp
  from load_edges_structural_invariants [OF h0 l0 t0 c]
  have e: "row_index ?g0 = []" by simp
  from load_edges_structural_invariants [OF h l t c] n v
  have "sorted (row_index germany_routes)" "row_index germany_routes ! 0 = 0"
    "row_index germany_routes ! num_vertices germany_routes = length (col_index germany_routes)"
    "structural_invariants germany_routes"
    by blast+
  with h n v l t c h0 e show ?thesis
    by (simp add: list_all_iff)
qed

text \<open>
  C4, at an input where it fails. The German routes graph has 10 vertices. Loading the
  single vertex record (0, Frankfurt) with the vertex count 20 leaves one vertex value,
  not at least 20; loading the single record (5, Nurnberg) fails with
  \<open>IdOutOfRange\<close>, although 5 is below both the number of vertices and the count
  given.
\<close>

theorem load_vertices_no_growth:
  "(case load_vertices [] germany_routes [(0, ''Frankfurt'')] 20 of
      Inl err \<Rightarrow> False
    | Inr g \<Rightarrow> num_vertices g = 10 \<and> length (row_values g) = 1) \<and>
   load_vertices [] germany_routes [(5, ''Nurnberg'')] 20 = Inl IdOutOfRange"
  by (simp add: load_vertices_def load_row_values_def resize_def germany_routes_eq
      num_vertices_def vertices_def)

text \<open>
  C5. \<open>load_edges\<close> on a graph whose \<open>row_index_\<close>, \<open>col_index_\<close> or edge values
  are not empty fails with \<open>NotEmpty\<close>. On an empty graph it fails with
  \<open>OutOfOrder\<close> exactly when the records are not sorted by \<open>source_id\<close>; and where
  a record \<open>c\<close> follows a record \<open>a\<close> with a larger \<open>source_id\<close>, the records up
  to \<open>a\<close> being sorted, the loop accepts the records up to \<open>a\<close> and fails at
  \<open>c\<close>, where it compares \<open>c\<close> with \<open>last_uid\<close>, the \<open>source_id\<close> of \<open>a\<close>.
\<close>

theorem load_edges_failures:
  "(\<not> (row_index g = [] \<and> col_index g = [] \<and> col_empty (col_values g)) \<longrightarrow>
      load_edges vv0 bidirectional vertex_count g erng = Inl NotEmpty) \<and>
   (row_index g = [] \<and> col_index g = [] \<and> col_empty (col_values g) \<longrightarrow>
      (load_edges vv0 bidirectional vertex_count g erng = Inl OutOfOrder)
        = (\<not> sorted (map source_id erng)) \<and>
      (\<forall>pre a c post.
          erng = pre @ a # c # post \<and> sorted (map source_id (pre @ [a])) \<and>
          source_id c < source_id a \<longrightarrow>
          (\<exists>g1 max_vid1.
              add_edges g 0 0 (pre @ [a]) = Inr (g1, max_vid1) \<and>
              add_edges g 0 0 erng = add_edges g1 (source_id a) max_vid1 (c # post) \<and>
              add_edges g1 (source_id a) max_vid1 (c # post) = Inl OutOfOrder)))"
proof (intro conjI impI allI)
  assume "\<not> (row_index g = [] \<and> col_index g = [] \<and> col_empty (col_values g))"
  then show "load_edges vv0 bidirectional vertex_count g erng = Inl NotEmpty"
    by (simp add: load_edges_def)
next
  assume e: "row_index g = [] \<and> col_index g = [] \<and> col_empty (col_values g)"
  show "(load_edges vv0 bidirectional vertex_count g erng = Inl OutOfOrder)
          = (\<not> sorted (map source_id erng))"
  proof (cases "sorted (map source_id erng)")
    case True
    then have "sorted (0 # map source_id erng)" by simp
    from add_edges_sorted [OF this, of g 0] obtain r where "add_edges g 0 0 erng = Inr r" ..
    with True e show ?thesis
      by (cases r) (simp add: load_edges_def Let_def)
  next
    case False
    then have "\<not> sorted (0 # map source_id erng)" by simp
    from add_edges_unsorted [OF this, of g 0] have "add_edges g 0 0 erng = Inl OutOfOrder" .
    with False e show ?thesis
      by (auto simp: load_edges_def Let_def)
  qed
next
  fix pre a c post
  assume e: "row_index g = [] \<and> col_index g = [] \<and> col_empty (col_values g)"
    and h: "erng = pre @ a # c # post \<and> sorted (map source_id (pre @ [a])) \<and>
            source_id c < source_id a"
  from h have "sorted (0 # map source_id (pre @ [a]))" by simp
  from add_edges_sorted [OF this, of g 0] obtain g1 max_vid1
    where p: "add_edges g 0 0 (pre @ [a]) = Inr (g1, max_vid1)" by force
  from h have f: "add_edges g1 (source_id a) max_vid1 (c # post) = Inl OutOfOrder" by simp
  from h have "erng = (pre @ [a]) @ c # post" by simp
  then have "add_edges g 0 0 erng = add_edges g1 (source_id a) max_vid1 (c # post)"
    using p by (simp only: add_edges_append) simp
  with p f show "\<exists>g1 max_vid1.
              add_edges g 0 0 (pre @ [a]) = Inr (g1, max_vid1) \<and>
              add_edges g 0 0 erng = add_edges g1 (source_id a) max_vid1 (c # post) \<and>
              add_edges g1 (source_id a) max_vid1 (c # post) = Inl OutOfOrder" by blast
qed

theorem load_edges_failures_witness:
  "load_edges [] True 0 germany_routes routes = Inl NotEmpty \<and>
   load_edges (0 :: nat) True 0 (empty_graph (Col_vals []))
     [mk_edge 1 2 (5 :: int), mk_edge 0 1 7] = Inl OutOfOrder \<and>
   (\<exists>g1 max_vid1.
      add_edges (empty_graph (Col_vals []) :: (int, nat) csr_graph) 0 0 [mk_edge 1 2 5]
        = Inr (g1, max_vid1) \<and>
      add_edges g1 1 max_vid1 [mk_edge 0 1 7] = Inl OutOfOrder)"
proof -
  have a: "load_edges [] True 0 germany_routes routes = Inl NotEmpty"
    using load_edges_failures [of germany_routes "[]" True 0 routes]
    by (simp add: germany_routes_eq)
  let ?g = "empty_graph (Col_vals []) :: (int, nat) csr_graph"
  let ?erng = "[mk_edge 1 2 (5 :: int), mk_edge 0 1 7]"
  note t = load_edges_failures [of ?g 0 True 0 ?erng]
  have e: "row_index ?g = [] \<and> col_index ?g = [] \<and> col_empty (col_values ?g)"
    by (simp add: empty_graph_def)
  from t e have b: "load_edges 0 True 0 ?g ?erng = Inl OutOfOrder"
    by (simp add: mk_edge_def)
  have h: "?erng = [] @ mk_edge 1 2 5 # mk_edge 0 1 7 # [] \<and>
      sorted (map source_id ([] @ [mk_edge 1 2 (5 :: int)])) \<and>
      source_id (mk_edge 0 1 (7 :: int)) < source_id (mk_edge 1 2 (5 :: int))"
    by (simp add: mk_edge_def)
  from t e have "\<forall>pre a c post.
          ?erng = pre @ a # c # post \<and> sorted (map source_id (pre @ [a])) \<and>
          source_id c < source_id a \<longrightarrow>
          (\<exists>g1 max_vid1.
              add_edges ?g 0 0 (pre @ [a]) = Inr (g1, max_vid1) \<and>
              add_edges ?g 0 0 ?erng = add_edges g1 (source_id a) max_vid1 (c # post) \<and>
              add_edges g1 (source_id a) max_vid1 (c # post) = Inl OutOfOrder)"
    by blast
  from this [rule_format, OF h] have c: "\<exists>g1 max_vid1.
      add_edges ?g 0 0 [mk_edge 1 2 5] = Inr (g1, max_vid1) \<and>
      add_edges g1 1 max_vid1 [mk_edge 0 1 7] = Inl OutOfOrder"
    by (auto simp: mk_edge_def)
  from a b c show ?thesis by blast
qed

text \<open>
  C6. A load of the empty edge sequence that succeeds leaves the graph as it was, and
  that graph is empty: the row offsets and the column targets have length zero (no
  terminating row is added), there are no vertices, and \<open>vertices(g)\<close> enumerates
  nothing.
\<close>

theorem load_edges_empty_input:
  "load_edges vv0 bidirectional vertex_count g [] = Inr g' \<Longrightarrow>
     g' = g \<and> length (row_index g') = 0 \<and> length (col_index g') = 0 \<and>
     num_vertices g' = 0 \<and> vertices g' = []"
  by (auto simp: load_edges_def num_vertices_def vertices_def split: if_splits)

theorem load_edges_empty_input_witness:
  "load_edges (0::nat) True 0 (empty_graph (Col_vals [])) ([] :: int copyable_edge list)
     = Inr (empty_graph (Col_vals [])) \<and>
   length (row_index (empty_graph (Col_vals []) :: (int, nat) csr_graph)) = 0 \<and>
   length (col_index (empty_graph (Col_vals []) :: (int, nat) csr_graph)) = 0 \<and>
   num_vertices (empty_graph (Col_vals []) :: (int, nat) csr_graph) = 0 \<and>
   vertices (empty_graph (Col_vals []) :: (int, nat) csr_graph) = []"
proof -
  have h: "load_edges (0::nat) True 0 (empty_graph (Col_vals [])) ([] :: int copyable_edge list)
     = Inr (empty_graph (Col_vals []))"
    by (simp add: load_edges_def empty_graph_def)
  from load_edges_empty_input [OF h] h show ?thesis by simp
qed

text \<open>
  C7. The complete depth-first vertex traversal of the German routes graph from seed 0
  yields the nine vertex ids 1, 2, 3, 8, 4, 5, 9, 7, 6 in this order; and no traversal,
  of any graph from any seed, yields its seed.
\<close>

theorem dfs_vertex_range_routes:
  "dfs_vertex_range germany_routes 0 (\<lambda>uid. None) = Inr [1, 2, 3, 8, 4, 5, 9, 7, 6] \<and>
   (case dfs_vertex_range germany_routes 0 (\<lambda>uid. None) of
      Inl err \<Rightarrow> False
    | Inr uids \<Rightarrow> length uids = 9) \<and>
   (\<forall>uids. dfs_vertex_range g seed body = Inr uids \<longrightarrow> seed \<notin> set uids)"
proof -
  have "dfs_vertex_range germany_routes 0 (\<lambda>uid. None) = Inr [1, 2, 3, 8, 4, 5, 9, 7, 6]"
    by (simp add: dfs_vertex_range_def dfs_sourced_edge_range_germany_routes)
  then show ?thesis by (simp add: dfs_vertex_range_no_seed)
qed

theorem dfs_vertex_range_routes_witness:
  "dfs_vertex_range germany_routes 0 (\<lambda>uid. None) = Inr [1, 2, 3, 8, 4, 5, 9, 7, 6] \<and>
   0 \<notin> set [1, 2, 3, 8, 4, 5, 9, 7, 6 :: nat]"
  using dfs_vertex_range_routes [of germany_routes 0 "\<lambda>uid. None"] by simp

text \<open>
  C8. A yield leaves the frame of the yielded vertex on top of the stack, and the
  advance after \<open>cancel(cancel_branch)\<close> is the plain advance from the state with
  exactly that frame popped. Hence, when the loop body cancels the branch whenever a
  vertex \<open>v\<close> other than the seed is yielded, \<open>v\<close> is the DFS-tree ancestor of no
  yielded vertex. On the German routes graph, \<open>cancel_branch\<close> after vertex 4 is
  yielded skips the vertices 5, 9 and 7: the traversal yields 1, 2, 3, 8, 4, 6, six
  elements, in the vertex view and in the edge view.
\<close>

theorem dfs_cancel_branch_routes:
  "(\<forall>u v e s'. dfs_next g s = Inr (Some (u, v, e), s') \<longrightarrow>
      (\<exists>fr rest. stack s' = fr # rest \<and> vertex_id fr = v \<and>
         dfs_next g (dfs_cancel s' cancel_branch)
           = advance g (s'\<lparr>stack := rest, cancel_flag := None\<rparr>))) \<and>
   (\<forall>ys w. dfs_sourced_edge_range g seed body = Inr ys \<and>
      (\<forall>u e. body (u, v, e) = Some cancel_branch) \<and> v \<noteq> seed \<longrightarrow>
      \<not> dfs_ancestor ys v w) \<and>
   dfs_vertex_range germany_routes 0 (\<lambda>uid. if uid = 4 then Some cancel_branch else None)
     = Inr [1, 2, 3, 8, 4, 6] \<and>
   dfs_edge_range germany_routes 0 (\<lambda>(vid, uv). if vid = 4 then Some cancel_branch else None)
     = Inr [(1, 0), (2, 3), (3, 4), (8, 5), (4, 1), (6, 2)] \<and>
   (case dfs_vertex_range germany_routes 0
           (\<lambda>uid. if uid = 4 then Some cancel_branch else None) of
      Inl err \<Rightarrow> False
    | Inr uids \<Rightarrow> length uids = 6 \<and> 5 \<notin> set uids \<and> 9 \<notin> set uids \<and> 7 \<notin> set uids)"
proof -
  have pop: "\<forall>u v e s'. dfs_next g s = Inr (Some (u, v, e), s') \<longrightarrow>
      (\<exists>fr rest. stack s' = fr # rest \<and> vertex_id fr = v \<and>
         dfs_next g (dfs_cancel s' cancel_branch)
           = advance g (s'\<lparr>stack := rest, cancel_flag := None\<rparr>))"
    by (auto simp: dfs_next_cancel_branch dest!: dfs_next_yield)
  have anc: "\<forall>ys w. dfs_sourced_edge_range g seed body = Inr ys \<and>
      (\<forall>u e. body (u, v, e) = Some cancel_branch) \<and> v \<noteq> seed \<longrightarrow>
      \<not> dfs_ancestor ys v w"
    by (blast dest: dfs_cancel_branch_no_descendant)
  have vr: "dfs_vertex_range germany_routes 0
             (\<lambda>uid. if uid = 4 then Some cancel_branch else None) = Inr [1, 2, 3, 8, 4, 6]"
    by (simp add: dfs_vertex_range_def dfs_sourced_edge_range_cancel_branch)
  have er: "dfs_edge_range germany_routes 0
             (\<lambda>(vid, uv). if vid = 4 then Some cancel_branch else None)
              = Inr [(1, 0), (2, 3), (3, 4), (8, 5), (4, 1), (6, 2)]"
    by (simp add: dfs_edge_range_def dfs_sourced_edge_range_cancel_branch)
  from pop anc vr er show ?thesis by simp
qed

theorem dfs_cancel_branch_routes_witness:
  "dfs_next germany_routes
     \<lparr>visited = [True, True, True, True, False, False, False, False, True, False],
      stack = [\<lparr>vertex_id = 0, edge_cursor = 1, edge_end = 3\<rparr>], cancel_flag = None\<rparr>
     = Inr (Some (0, 4, 1),
         \<lparr>visited = [True, True, True, True, True, False, False, False, True, False],
          stack = [\<lparr>vertex_id = 4, edge_cursor = 6, edge_end = 8\<rparr>,
                   \<lparr>vertex_id = 0, edge_cursor = 2, edge_end = 3\<rparr>],
          cancel_flag = None\<rparr>) \<and>
   dfs_next germany_routes
     (dfs_cancel
        \<lparr>visited = [True, True, True, True, True, False, False, False, True, False],
         stack = [\<lparr>vertex_id = 4, edge_cursor = 6, edge_end = 8\<rparr>,
                  \<lparr>vertex_id = 0, edge_cursor = 2, edge_end = 3\<rparr>],
         cancel_flag = None\<rparr> cancel_branch)
     = advance germany_routes
         \<lparr>visited = [True, True, True, True, True, False, False, False, True, False],
          stack = [\<lparr>vertex_id = 0, edge_cursor = 2, edge_end = 3\<rparr>],
          cancel_flag = None\<rparr> \<and>
   dfs_sourced_edge_range germany_routes 0
     (\<lambda>(uid, vid, uv). if vid = 4 then Some cancel_branch else None)
     = Inr [(0, 1, 0), (1, 2, 3), (2, 3, 4), (3, 8, 5), (0, 4, 1), (0, 6, 2)] \<and>
   \<not> dfs_ancestor [(0, 1, 0), (1, 2, 3), (2, 3, 4), (3, 8, 5), (0, 4, 1), (0, 6, 2)] 4 5 \<and>
   dfs_vertex_range germany_routes 0 (\<lambda>uid. if uid = 4 then Some cancel_branch else None)
     = Inr [1, 2, 3, 8, 4, 6]"
proof -
  let ?s = "\<lparr>visited = [True, True, True, True, False, False, False, False, True, False],
      stack = [\<lparr>vertex_id = 0, edge_cursor = 1, edge_end = 3\<rparr>], cancel_flag = None\<rparr>"
  let ?s' = "\<lparr>visited = [True, True, True, True, True, False, False, False, True, False],
          stack = [\<lparr>vertex_id = 4, edge_cursor = 6, edge_end = 8\<rparr>,
                   \<lparr>vertex_id = 0, edge_cursor = 2, edge_end = 3\<rparr>],
          cancel_flag = None\<rparr>"
  let ?body = "\<lambda>(uid :: nat, vid :: nat, uv :: nat). if vid = 4 then Some cancel_branch else None"
  let ?ys = "[(0, 1, 0), (1, 2, 3), (2, 3, 4), (3, 8, 5), (0, 4, 1), (0, 6, 2 :: nat)]
               :: (nat \<times> nat \<times> nat) list"
  note t = dfs_cancel_branch_routes [of germany_routes ?s 0 ?body 4]
  have h: "dfs_next germany_routes ?s = Inr (Some (0, 4, 1), ?s')"
    by (simp add: advance.simps dfs_next_def Let_def germany_routes_eq
        edges_def to_VId_def target_id_of_def list_update_Cons_numeral)
  from t [THEN conjunct1, rule_format, OF h]
  have p: "dfs_next germany_routes (dfs_cancel ?s' cancel_branch)
             = advance germany_routes (?s'\<lparr>stack := [\<lparr>vertex_id = 0, edge_cursor = 2, edge_end = 3\<rparr>],
                 cancel_flag := None\<rparr>)"
    by auto
  have r: "dfs_sourced_edge_range germany_routes 0 ?body = Inr ?ys"
    by (rule dfs_sourced_edge_range_cancel_branch)
  have c: "\<forall>u e. ?body (u, 4, e) = Some cancel_branch" by simp
  have n: "(4 :: nat) \<noteq> 0" by simp
  from t [THEN conjunct2, THEN conjunct1, rule_format, of ?ys 5] r c n
  have a: "\<not> dfs_ancestor ?ys 4 5" by blast
  from t have v: "dfs_vertex_range germany_routes 0
      (\<lambda>uid. if uid = 4 then Some cancel_branch else None) = Inr [1, 2, 3, 8, 4, 6]"
    by blast
  from h p r a v show ?thesis by simp
qed

text \<open>
  C9. Two vertexlist iterators compare equal exactly when their vertex cursors are
  equal: iterators built over the same cursor with any two starting identifiers compare
  equal, and still do after both are incremented.
\<close>

theorem vertexlist_iterator_equality:
  "vl_equal a b = (iter a = iter b) \<and>
   vl_equal (vertexlist_iterator_at it k1) (vertexlist_iterator_at it k2) \<and>
   vl_equal (vl_increment (vertexlist_iterator_at it k1))
            (vl_increment (vertexlist_iterator_at it k2))"
  by (simp add: vl_equal_def vertexlist_iterator_at_def vl_increment_def)

text \<open>
  C10. When the vertex records given to \<open>load_vertices\<close> contain several pairs with
  the same id, a successful load leaves at that id the value of the last such pair: for
  a pair \<open>(uid, vval)\<close> after which no pair has the id \<open>uid\<close>, whatever precedes it,
  \<open>vertex_values[uid]\<close> is \<open>vval\<close>.
\<close>

theorem load_vertices_last_wins:
  "load_vertices vv0 g vrng vertex_count = Inr g' \<Longrightarrow>
   vrng = before @ (uid, vval) # after \<Longrightarrow> uid \<notin> fst ` set after \<Longrightarrow>
     uid < length (row_values g') \<and> row_values g' ! uid = vval"
  by (auto simp: load_vertices_def load_row_values_def split: sum.splits
      dest!: assign_row_values_last)

theorem load_vertices_last_wins_witness:
  "load_vertices [] germany_routes [(1, ''Mainz''), (0, ''Frankfurt''), (1, ''Mannheim'')] 0
     = Inr (germany_routes\<lparr>row_values := [''Frankfurt'', ''Mannheim'', []]\<rparr>) \<and>
   [(1, ''Mainz''), (0, ''Frankfurt''), (1, ''Mannheim'')]
     = [(1, ''Mainz''), (0 :: nat, ''Frankfurt'')] @ (1, ''Mannheim'') # [] \<and>
   (1 :: nat) \<notin> fst ` set ([] :: (nat \<times> string) list) \<and>
   [''Frankfurt'', ''Mannheim'', []] ! 1 = ''Mannheim''"
proof -
  have h: "load_vertices [] germany_routes [(1, ''Mainz''), (0, ''Frankfurt''), (1, ''Mannheim'')] 0
     = Inr (germany_routes\<lparr>row_values := [''Frankfurt'', ''Mannheim'', []]\<rparr>)"
    by (simp add: load_vertices_def load_row_values_def resize_def germany_routes_eq
        replicate_numeral)
  have s: "[(1, ''Mainz''), (0, ''Frankfurt''), (1, ''Mannheim'')]
     = [(1, ''Mainz''), (0 :: nat, ''Frankfurt'')] @ (1, ''Mannheim'') # []" by simp
  have n: "(1 :: nat) \<notin> fst ` set ([] :: (nat \<times> string) list)" by simp
  from load_vertices_last_wins [OF h s n] h s n show ?thesis by simp
qed

end
